theory Spec2Isabelle
  imports Complex_Main
begin

section \<open>The toast lifecycle manager of toasavi\<close>

text \<open>
  The development embeds the class \<open>ToasaviManager\<close>: its registry of toasts, the
  display surface it appends toast elements to, and the one-shot timers it schedules.
  The Document Object Model and the event loop are written out as data: created
  elements live in a store and are named by their index, the container holds the
  indices of its children in order, and every pending \<open>setTimeout\<close> callback is an
  entry of a queue together with the time at which it is due. The clock and the due
  times are whole milliseconds. Style sheets and the position styles are presentation only and are
  left out. The method \<open>show\<close> is the constant \<open>show_toast\<close> and the variable \<open>id\<close> of
  the source is written \<open>tid\<close>, both names being taken in Isabelle.
\<close>

subsection \<open>Types and callbacks\<close>

datatype ToastType = Success | Error | Warning | Info

datatype ToastPosition =
  TopRight | TopLeft | BottomRight | BottomLeft | TopCenter | BottomCenter

text \<open>A caller's function is known by its identity only; invoking it is recorded.\<close>

type_synonym callback = nat

subsection \<open>Numbers\<close>

text \<open>
  A value of the type \<open>number\<close> of the source: a finite number, taken as a rational,
  or one of \<open>Infinity\<close>, \<open>-Infinity\<close> and \<open>NaN\<close>. A field that may hold \<open>undefined\<close> is a
  \<open>number option\<close>, and \<open>ToNumber\<close> is the conversion a comparison applies to it.
\<close>

datatype number = Num rat | Infinity | NegInfinity | NaN

fun ToNumber :: "number option \<Rightarrow> number" where
  "ToNumber None = NaN"
| "ToNumber (Some x) = x"

text \<open>The comparison \<open>x > 0\<close>.\<close>

fun greater_than_zero :: "number \<Rightarrow> bool" where
  "greater_than_zero (Num r) = (r > 0)"
| "greater_than_zero Infinity = True"
| "greater_than_zero NegInfinity = False"
| "greater_than_zero NaN = False"

text \<open>The comparison \<open>n >= x\<close> for a whole number \<open>n\<close>.\<close>

fun at_least :: "int \<Rightarrow> number \<Rightarrow> bool" where
  "at_least n (Num r) = (of_int n \<ge> r)"
| "at_least n Infinity = False"
| "at_least n NegInfinity = True"
| "at_least n NaN = False"

text \<open>
  The delay \<open>setTimeout\<close> derives from its second argument in a browser, the only
  environment in which the manager has a container: the argument is converted to a
  signed 32-bit integer (truncated towards zero and wrapped modulo \<open>2^32\<close>; \<open>NaN\<close> and
  the infinities give 0), and a negative result counts as 0.
\<close>

fun ToInt32 :: "number \<Rightarrow> int" where
  "ToInt32 (Num r) =
     (let t = (if r \<ge> 0 then \<lfloor>r\<rfloor> else \<lceil>r\<rceil>);
          m = t mod 4294967296
      in if m \<ge> 2147483648 then m - 4294967296 else m)"
| "ToInt32 Infinity = 0"
| "ToInt32 NegInfinity = 0"
| "ToInt32 NaN = 0"

definition timer_delay :: "number \<Rightarrow> int" where
  "timer_delay x = max 0 (ToInt32 x)"

subsection \<open>Options\<close>

record ToastOptions =
  message :: string
  type :: "ToastType option"
  duration :: "number option"
  position :: "ToastPosition option"
  closable :: "bool option"
  className :: "string option"
  onClick :: "callback option"
  onClose :: "callback option"

subsection \<open>Configuration\<close>

text \<open>
  The optional configuration a caller passes to the constructor. A key may be
  absent (\<open>None\<close>), or present with a value, which may be \<open>undefined\<close> (\<open>Some None\<close>).
\<close>

record ToasaviConfig =
  defaultDuration_opt :: "number option option"
  defaultPosition_opt :: "ToastPosition option option"
  maxToasts_opt :: "number option option"
  spacing_opt :: "number option option"
  zIndex_opt :: "number option option"

text \<open>
  The configuration the manager holds, declared as \<open>Required<ToasaviConfig>\<close>. The
  spread in the constructor can store \<open>undefined\<close> in a field, so the fields are
  options.
\<close>

record RequiredConfig =
  defaultDuration :: "number option"
  defaultPosition :: "ToastPosition option"
  maxToasts :: "number option"
  spacing :: "number option"
  zIndex :: "number option"

definition default_config :: RequiredConfig where
  "default_config =
     \<lparr>defaultDuration = Some (Num 4000), defaultPosition = Some TopRight,
      maxToasts = Some (Num 5), spacing = Some (Num 10), zIndex = Some (Num 10000)\<rparr>"

text \<open>
  The object spread \<open>{ ...this.config, ...config }\<close>: every key present in \<open>config\<close>
  wins, with whatever value it has.
\<close>

definition merge_config :: "RequiredConfig \<Rightarrow> ToasaviConfig \<Rightarrow> RequiredConfig" where
  "merge_config c u =
     \<lparr>defaultDuration = (case defaultDuration_opt u of Some v \<Rightarrow> v | None \<Rightarrow> defaultDuration c),
      defaultPosition = (case defaultPosition_opt u of Some v \<Rightarrow> v | None \<Rightarrow> defaultPosition c),
      maxToasts = (case maxToasts_opt u of Some v \<Rightarrow> v | None \<Rightarrow> maxToasts c),
      spacing = (case spacing_opt u of Some v \<Rightarrow> v | None \<Rightarrow> spacing c),
      zIndex = (case zIndex_opt u of Some v \<Rightarrow> v | None \<Rightarrow> zIndex c)\<rparr>"

subsection \<open>Elements and class tokens\<close>

definition is_space :: "char \<Rightarrow> bool" where
  "is_space c = (c \<in> set [CHR '' '', CHR 0x09, CHR 0x0A, CHR 0x0C, CHR 0x0D])"

fun split_spaces :: "string \<Rightarrow> string \<Rightarrow> string list" where
  "split_spaces cur [] = (if cur = [] then [] else [cur])"
| "split_spaces cur (c # cs) =
     (if is_space c
      then (if cur = [] then split_spaces [] cs else cur # split_spaces [] cs)
      else split_spaces (cur @ [c]) cs)"

fun ordered_set :: "string list \<Rightarrow> string list \<Rightarrow> string list" where
  "ordered_set seen [] = seen"
| "ordered_set seen (t # ts) =
     (if t \<in> set seen then ordered_set seen ts else ordered_set (seen @ [t]) ts)"

text \<open>The token set of a \<open>className\<close> string, in order of first occurrence.\<close>

definition class_tokens :: "string \<Rightarrow> string list" where
  "class_tokens cn = ordered_set [] (split_spaces [] cn)"

fun type_name :: "ToastType \<Rightarrow> string" where
  "type_name Success = ''success''"
| "type_name Error = ''error''"
| "type_name Warning = ''warning''"
| "type_name Info = ''info''"

text \<open>
  A toast element: its class tokens, \<open>dataset.toastId\<close>, the text of its message
  child, its close button (present or not; the button's click handler closes over the
  id kept here) and its own \<open>onclick\<close> handler.
\<close>

record toast_element =
  classes :: "string list"
  toastId :: string
  textContent :: string
  closeBtn :: "string option"
  onclick :: "callback option"

subsection \<open>Timers\<close>

text \<open>
  The two closures handed to \<open>setTimeout\<close>: the auto-dismiss callback of \<open>show\<close>,
  which closes over the id, and the completion callback of \<open>removeToast\<close>, which
  closes over the element and the id.
\<close>

datatype timer_callback = AutoDismiss string | RemovalDone nat string

record timer =
  due :: int
  callback_of :: timer_callback

subsection \<open>State\<close>

text \<open>
  \<open>container\<close>, \<open>toasts\<close> and \<open>config\<close> are the fields of the manager. \<open>container\<close> is
  \<open>None\<close> for \<open>null\<close> and otherwise lists the container's children. \<open>toasts\<close> is the
  \<open>Map\<close> from id to element, in insertion order. The other fields are the
  environment: the element store, the pending timers in the order they were
  scheduled, the clock, and the log of invoked caller functions.
\<close>

record state =
  container :: "nat list option"
  toasts :: "(string \<times> nat) list"
  config :: RequiredConfig
  elems :: "toast_element list"
  timers :: "timer list"
  now :: int
  calls :: "callback list"

subsection \<open>The operations of \<open>Map\<close>\<close>

fun Map_get :: "(string \<times> nat) list \<Rightarrow> string \<Rightarrow> nat option" where
  "Map_get [] k = None"
| "Map_get ((k', v) # m) k = (if k' = k then Some v else Map_get m k)"

text \<open>\<open>set\<close> keeps the position of a key that is present and appends a new one.\<close>

fun Map_set :: "string \<Rightarrow> nat \<Rightarrow> (string \<times> nat) list \<Rightarrow> (string \<times> nat) list" where
  "Map_set k v [] = [(k, v)]"
| "Map_set k v ((k', v') # m) = (if k' = k then (k, v) # m else (k', v') # Map_set k v m)"

fun Map_delete :: "string \<Rightarrow> (string \<times> nat) list \<Rightarrow> (string \<times> nat) list" where
  "Map_delete k [] = []"
| "Map_delete k ((k', v) # m) = (if k' = k then Map_delete k m else (k', v) # Map_delete k m)"

definition Map_size :: "(string \<times> nat) list \<Rightarrow> int" where
  "Map_size m = int (length m)"

subsection \<open>The manager\<close>

text \<open>
  The constructor: the configuration is merged and \<open>initContainer\<close> creates the
  container unless there is no \<open>window\<close>.
\<close>

definition initContainer :: "bool \<Rightarrow> state \<Rightarrow> state" where
  "initContainer has_window s = (if \<not> has_window then s else s\<lparr>container := Some []\<rparr>)"

definition new_manager :: "bool \<Rightarrow> ToasaviConfig option \<Rightarrow> state" where
  "new_manager has_window cfg =
     initContainer has_window
       \<lparr>container = None, toasts = [],
        config = (case cfg of None \<Rightarrow> default_config | Some u \<Rightarrow> merge_config default_config u),
        elems = [], timers = [], now = 0, calls = []\<rparr>"

definition setTimeout :: "timer_callback \<Rightarrow> number \<Rightarrow> state \<Rightarrow> state" where
  "setTimeout cb delay s =
     s\<lparr>timers := timers s @ [\<lparr>due = now s + timer_delay delay, callback_of = cb\<rparr>]\<rparr>"

text \<open>\<open>classList.add\<close> on a stored element.\<close>

definition classList_add :: "nat \<Rightarrow> string \<Rightarrow> state \<Rightarrow> state" where
  "classList_add toast tok s =
     (if toast < length (elems s)
      then let e = elems s ! toast
           in s\<lparr>elems := (elems s)[toast :=
                  e\<lparr>classes := (if tok \<in> set (classes e) then classes e else classes e @ [tok])\<rparr>]\<rparr>
      else s)"

definition removeToast :: "string \<Rightarrow> state \<Rightarrow> state" where
  "removeToast tid s =
     (case Map_get (toasts s) tid of
        None \<Rightarrow> s
      | Some toast \<Rightarrow>
          setTimeout (RemovalDone toast tid) (Num 300)
            (classList_add toast ''toasavi-removing'' s))"

text \<open>
  The callback \<open>removeToast\<close> schedules. A toast is only ever appended to the
  container, so its \<open>parentNode\<close> is the container when it is among the children
  and \<open>null\<close> otherwise. A node is a child at most once, so \<open>removeChild\<close> leaves
  no occurrence of it.
\<close>

definition removal_done :: "nat \<Rightarrow> string \<Rightarrow> state \<Rightarrow> state" where
  "removal_done toast tid s =
     (let s1 = (case container s of
                  None \<Rightarrow> s
                | Some children \<Rightarrow>
                    if toast \<in> set children
                    then s\<lparr>container := Some (removeAll toast children)\<rparr> else s)
      in s1\<lparr>toasts := Map_delete tid (toasts s1)\<rparr>)"

definition limitToasts :: "state \<Rightarrow> state" where
  "limitToasts s =
     (if at_least (Map_size (toasts s)) (ToNumber (maxToasts (config s)))
      then (case toasts s of
              [] \<Rightarrow> s
            | (_, firstToast) # _ \<Rightarrow> removeToast (toastId (elems s ! firstToast)) s)
      else s)"

text \<open>
  \<open>show\<close>; the argument \<open>tid\<close> is the value \<open>generateId\<close> returns, which comes
  from \<open>Math.random\<close>. The new element takes the next free index of the store. The
  duration is \<open>undefined\<close> when the options give none and the configuration holds
  \<open>undefined\<close>.
\<close>

definition new_toast :: "ToastOptions \<Rightarrow> string \<Rightarrow> toast_element" where
  "new_toast options tid =
     \<lparr>classes = class_tokens (''toasavi-toast toasavi-''
          @ type_name (case type options of Some t \<Rightarrow> t | None \<Rightarrow> Info) @ '' ''
          @ (case className options of Some c \<Rightarrow> c | None \<Rightarrow> '''')),
      toastId = tid,
      textContent = message options,
      closeBtn = (if closable options \<noteq> Some False then Some tid else None),
      onclick = onClick options\<rparr>"

definition show_toast :: "ToastOptions \<Rightarrow> string \<Rightarrow> state \<Rightarrow> state \<times> string" where
  "show_toast options tid s =
     (case container s of
        None \<Rightarrow> (s, '''')
      | Some _ \<Rightarrow>
          let s1 = limitToasts s;
              toast = length (elems s1);
              s2 = s1\<lparr>elems := elems s1 @ [new_toast options tid]\<rparr>;
              s3 = s2\<lparr>container := map_option (\<lambda>children. children @ [toast]) (container s2)\<rparr>;
              s4 = s3\<lparr>toasts := Map_set tid toast (toasts s3)\<rparr>;
              d = (case duration options of
                     Some v \<Rightarrow> Some v
                   | None \<Rightarrow> defaultDuration (config s4));
              s5 = (if greater_than_zero (ToNumber d)
                    then setTimeout (AutoDismiss tid) (ToNumber d) s4 else s4)
          in (s5, tid))"

definition clear :: "state \<Rightarrow> state" where
  "clear s = fold removeToast (map fst (toasts s)) s"

subsection \<open>The event loop and clicks\<close>

text \<open>Running a due callback: the body of the closure.\<close>

fun run_callback :: "timer_callback \<Rightarrow> state \<Rightarrow> state" where
  "run_callback (AutoDismiss tid) s = removeToast tid s"
| "run_callback (RemovalDone toast tid) s = removal_done toast tid s"

text \<open>
  The timer that fires next: the one due first, and among those due together the
  one scheduled first.
\<close>

fun earliest :: "timer \<Rightarrow> timer list \<Rightarrow> timer" where
  "earliest t [] = t"
| "earliest t (u # us) = earliest (if due u < due t then u else t) us"

definition next_timer :: "state \<Rightarrow> timer option" where
  "next_timer s = (case timers s of [] \<Rightarrow> None | t # ts \<Rightarrow> Some (earliest t ts))"

text \<open>
  One turn of the event loop: the next timer leaves the queue, the clock reaches
  its due time and its callback runs. A timer runs once.
\<close>

definition tick :: "state \<Rightarrow> state" where
  "tick s =
     (case next_timer s of
        None \<Rightarrow> s
      | Some t \<Rightarrow>
          run_callback (callback_of t)
            (s\<lparr>timers := remove1 t (timers s), now := max (now s) (due t)\<rparr>))"

text \<open>
  A click is dispatched to the handler of its target and then bubbles to the
  ancestors unless a handler stopped the propagation. The flag is the event's
  stopped state. \<open>closeBtn_onclick\<close> is the handler \<open>show\<close> installs on the close
  button, \<open>toast_onclick\<close> the toast's own handler, which \<open>show\<close> sets to the
  caller's \<open>onClick\<close>.
\<close>

definition closeBtn_onclick :: "string \<Rightarrow> bool \<times> state \<Rightarrow> bool \<times> state" where
  "closeBtn_onclick tid = (\<lambda>(stopped, s). (True, removeToast tid s))"

definition toast_onclick :: "nat \<Rightarrow> bool \<times> state \<Rightarrow> bool \<times> state" where
  "toast_onclick toast = (\<lambda>(stopped, s).
     (case onclick (elems s ! toast) of
        None \<Rightarrow> (stopped, s)
      | Some f \<Rightarrow> (stopped, s\<lparr>calls := calls s @ [f]\<rparr>)))"

text \<open>A click on the close button of a stored toast: the button, then the toast.\<close>

definition click_closeBtn :: "nat \<Rightarrow> state \<Rightarrow> state" where
  "click_closeBtn toast s =
     (if toast < length (elems s)
      then (case closeBtn (elems s ! toast) of
              None \<Rightarrow> s
            | Some tid \<Rightarrow>
                let (stopped, s1) = closeBtn_onclick tid (False, s)
                in if stopped then s1 else snd (toast_onclick toast (stopped, s1)))
      else s)"

text \<open>A click on the message of a stored toast: the message has no handler.\<close>

definition click_toast :: "nat \<Rightarrow> state \<Rightarrow> state" where
  "click_toast toast s =
     (if toast < length (elems s) then snd (toast_onclick toast (False, s)) else s)"

text \<open>What can happen to a manager, and runs of such events.\<close>

datatype event =
    Show ToastOptions string
  | RemoveToast string
  | Clear
  | Tick
  | ClickClose nat
  | ClickToast nat

fun step :: "event \<Rightarrow> state \<Rightarrow> state" where
  "step (Show options tid) s = fst (show_toast options tid s)"
| "step (RemoveToast tid) s = removeToast tid s"
| "step Clear s = clear s"
| "step Tick s = tick s"
| "step (ClickClose toast) s = click_closeBtn toast s"
| "step (ClickToast toast) s = click_toast toast s"

definition run :: "event list \<Rightarrow> state \<Rightarrow> state" where
  "run es s = fold step es s"

text \<open>Options with only the message given.\<close>

definition just :: "string \<Rightarrow> ToastOptions" where
  "just m =
     \<lparr>message = m, type = None, duration = None, position = None, closable = None,
      className = None, onClick = None, onClose = None\<rparr>"

subsection \<open>Notions the properties are stated with\<close>

text \<open>An element in its exit transition carries the class \<open>toasavi-removing\<close>.\<close>

definition removing :: "state \<Rightarrow> nat \<Rightarrow> bool" where
  "removing s toast = (''toasavi-removing'' \<in> set (classes (elems s ! toast)))"

definition attached :: "state \<Rightarrow> nat \<Rightarrow> bool" where
  "attached s toast = (case container s of None \<Rightarrow> False | Some children \<Rightarrow> toast \<in> set children)"

text \<open>
  The store invariant of every state a manager reaches: a registry entry and a
  pending completion callback name a stored element whose \<open>dataset.toastId\<close> is
  their id, a close button closes over the id of its toast, and the keys of the
  registry are distinct.
\<close>

fun entry_ok :: "toast_element list \<Rightarrow> string \<times> nat \<Rightarrow> bool" where
  "entry_ok es (k, toast) = (toast < length es \<and> toastId (es ! toast) = k)"

fun callback_ok :: "toast_element list \<Rightarrow> timer_callback \<Rightarrow> bool" where
  "callback_ok es (AutoDismiss k) = True"
| "callback_ok es (RemovalDone toast k) = entry_ok es (k, toast)"

definition wf :: "state \<Rightarrow> bool" where
  "wf s =
     ((\<forall>p \<in> set (toasts s). entry_ok (elems s) p)
      \<and> (\<forall>t \<in> set (timers s). callback_ok (elems s) (callback_of t))
      \<and> (\<forall>e \<in> set (elems s). closeBtn e = None \<or> closeBtn e = Some (toastId e))
      \<and> distinct (map fst (toasts s)))"

text \<open>The id a pending callback closes over.\<close>

fun callback_id :: "timer_callback \<Rightarrow> string" where
  "callback_id (AutoDismiss k) = k"
| "callback_id (RemovalDone toast k) = k"

text \<open>An id no registry entry and no pending callback uses.\<close>

definition fresh :: "string \<Rightarrow> state \<Rightarrow> bool" where
  "fresh tid s =
     (Map_get (toasts s) tid = None \<and> (\<forall>t \<in> set (timers s). callback_id (callback_of t) \<noteq> tid))"

text \<open>The test of \<open>limitToasts\<close>: \<open>this.toasts.size >= this.config.maxToasts\<close>.\<close>

definition at_capacity :: "state \<Rightarrow> bool" where
  "at_capacity s = at_least (Map_size (toasts s)) (ToNumber (maxToasts (config s)))"

text \<open>
  The events that call \<open>removeToast\<close> with a given id, or reuse the id: an explicit
  call, \<open>clear\<close>, a click on a close button of that id, and a \<open>show\<close> that returns the
  same id again or finds the toast of that id first in a full registry.
\<close>

fun disturbs :: "string \<Rightarrow> event \<Rightarrow> state \<Rightarrow> bool" where
  "disturbs tid (RemoveToast k) s = (k = tid)"
| "disturbs tid Clear s = True"
| "disturbs tid (ClickClose toast) s =
     (toast < length (elems s) \<and> closeBtn (elems s ! toast) = Some tid)"
| "disturbs tid (Show options k) s =
     (k = tid \<or>
      (container s \<noteq> None \<and> at_capacity s \<and>
       (case toasts s of [] \<Rightarrow> False | (_, firstToast) # _ \<Rightarrow> toastId (elems s ! firstToast) = tid)))"
| "disturbs tid Tick s = False"
| "disturbs tid (ClickToast toast) s = False"

text \<open>A run none of whose events disturbs the id in the state it happens in.\<close>

fun undisturbed :: "string \<Rightarrow> event list \<Rightarrow> state \<Rightarrow> bool" where
  "undisturbed tid [] s = True"
| "undisturbed tid (e # es) s = (\<not> disturbs tid e s \<and> undisturbed tid es (step e s))"

text \<open>
  What stays true of a registered toast while nothing disturbs its id: it is in the
  registry and attached, and no pending callback closes over its id.
\<close>

definition kept :: "string \<Rightarrow> nat \<Rightarrow> state \<Rightarrow> bool" where
  "kept tid toast s =
     (wf s \<and> Map_get (toasts s) tid = Some toast \<and> attached s toast
      \<and> (\<forall>t \<in> set (timers s). callback_id (callback_of t) \<noteq> tid))"

text \<open>The duration \<open>show\<close> resolves for a call.\<close>

definition resolved_duration :: "ToastOptions \<Rightarrow> state \<Rightarrow> number" where
  "resolved_duration options s =
     ToNumber (case duration options of Some v \<Rightarrow> Some v | None \<Rightarrow> defaultDuration (config s))"

text \<open>The events other than a call of \<open>show\<close>.\<close>

fun is_show :: "event \<Rightarrow> bool" where
  "is_show (Show options tid) = True"
| "is_show e = False"

text \<open>A manager with a display surface, default settings and a given capacity.\<close>

definition manager_of_capacity :: "int \<Rightarrow> state" where
  "manager_of_capacity n =
     new_manager True
       (Some \<lparr>defaultDuration_opt = None, defaultPosition_opt = None,
              maxToasts_opt = Some (Some (Num (of_int n))),
              spacing_opt = None, zIndex_opt = None\<rparr>)"

subsection \<open>Concrete managers\<close>

text \<open>
  A closable toast with an \<open>onClick\<close> callback, shown by a manager with the default
  settings.
\<close>

definition clickable :: ToastOptions where
  "clickable = (just ''y'')\<lparr>closable := Some True, onClick := Some 1\<rparr>"

definition shown_y :: state where
  "shown_y = fst (show_toast clickable ''k1'' (new_manager True None))"

text \<open>That manager after \<open>removeToast\<close> and the completion of the exit transition.\<close>

definition gone_y :: state where
  "gone_y = run [RemoveToast ''k1'', Tick] shown_y"

text \<open>Two toasts in a manager with the default settings, and in one of capacity 2.\<close>

definition two_toasts :: state where
  "two_toasts =
     run [Show (just ''a'') ''ka'', Show (just ''b'') ''kb''] (new_manager True None)"

definition full_two :: state where
  "full_two = run [Show (just ''a'') ''ka'', Show (just ''b'') ''kb''] (manager_of_capacity 2)"

text \<open>Options with a short duration, with duration 0, and with an \<open>onClose\<close> callback.\<close>

definition brief :: ToastOptions where
  "brief = (just ''x'')\<lparr>duration := Some (Num 100)\<rparr>"

definition persistent :: ToastOptions where
  "persistent = (just ''x'')\<lparr>duration := Some (Num 0)\<rparr>"

definition with_onClose :: ToastOptions where
  "with_onClose = (just ''x'')\<lparr>onClose := Some 7\<rparr>"

text \<open>The scenario of three calls of \<open>show\<close>.\<close>

definition three_shows :: "event list" where
  "three_shows = [Show (just ''a'') ''ka'', Show (just ''b'') ''kb'', Show (just ''c'') ''kc'']"

section \<open>Properties\<close>

subsection \<open>The operations of \<open>Map\<close>\<close>

lemma Map_get_Some_set: "Map_get m k = Some v \<Longrightarrow> (k, v) \<in> set m"
  by (induction m) (auto split: if_splits)

lemma Map_get_None_iff: "Map_get m k = None \<longleftrightarrow> k \<notin> fst ` set m"
  by (induction m) (auto split: if_splits)

lemma Map_get_distinct: "distinct (map fst m) \<Longrightarrow> (k, v) \<in> set m \<Longrightarrow> Map_get m k = Some v"
  by (induction m) (auto simp: rev_image_eqI)

lemma Map_get_delete: "Map_get (Map_delete k m) k' = (if k' = k then None else Map_get m k')"
  by (induction m) auto

lemma Map_delete_idem: "Map_delete k (Map_delete k m) = Map_delete k m"
  by (induction m) auto

lemma Map_delete_absent: "Map_get m k = None \<Longrightarrow> Map_delete k m = m"
  by (induction m) (auto split: if_splits)

lemma Map_delete_filter: "Map_delete k m = filter (\<lambda>p. fst p \<noteq> k) m"
  by (induction m) auto

lemma set_Map_delete: "set (Map_delete k m) = {p \<in> set m. fst p \<noteq> k}"
  by (simp add: Map_delete_filter)

lemma Map_get_set: "Map_get (Map_set k v m) k' = (if k' = k then Some v else Map_get m k')"
  by (induction m) auto

lemma keys_Map_set:
  "map fst (Map_set k v m) = (if k \<in> fst ` set m then map fst m else map fst m @ [k])"
proof (induction m)
  case Nil
  show ?case by simp
next
  case (Cons p m)
  obtain k' v' where p: "p = (k', v')" by (cases p)
  have "k \<in> fst ` set m \<Longrightarrow> ?case" using Cons p by simp
  moreover have "k \<notin> fst ` set m \<Longrightarrow> ?case" using Cons p by simp
  ultimately show ?case by blast
qed

lemma set_Map_set: "set (Map_set k v m) \<subseteq> insert (k, v) (set m)"
  by (induction m) (auto split: if_splits)

lemma distinct_Map_set: "distinct (map fst m) \<Longrightarrow> distinct (map fst (Map_set k v m))"
  by (simp add: keys_Map_set)

lemma distinct_Map_delete: "distinct (map fst m) \<Longrightarrow> distinct (map fst (Map_delete k m))"
  by (simp add: Map_delete_filter distinct_map_filter)

lemma length_Map_delete:
  "distinct (map fst m) \<Longrightarrow> Map_get m k = Some v \<Longrightarrow> length (Map_delete k m) + 1 = length m"
proof (induction m)
  case Nil
  then show ?case by simp
next
  case (Cons p m)
  obtain k' v' where p: "p = (k', v')" by (cases p)
  show ?case
  proof (cases "k' = k")
    case True
    with Cons.prems p have "Map_get m k = None"
      by (auto simp: Map_get_None_iff)
    with True p show ?thesis by (simp add: Map_delete_absent)
  next
    case False
    with Cons p show ?thesis by simp
  qed
qed

lemma length_Map_set_fresh: "Map_get m k = None \<Longrightarrow> length (Map_set k v m) = length m + 1"
  by (induction m) (auto split: if_splits)

lemma length_Map_delete_le: "length (Map_delete k m) \<le> length m"
  by (simp add: Map_delete_filter)

subsection \<open>The delay of a timer\<close>

lemma timer_delay_whole:
  "0 \<le> n \<Longrightarrow> n < 2147483648 \<Longrightarrow> timer_delay (Num (of_int n)) = n"
  by (simp add: timer_delay_def Let_def)

lemma timer_delay_300 [simp]: "timer_delay (Num 300) = 300"
  by (simp add: timer_delay_def)

subsection \<open>What \<open>removeToast\<close> touches\<close>

lemma removeToast_fields [simp]:
  "toasts (removeToast tid s) = toasts s"
  "container (removeToast tid s) = container s"
  "config (removeToast tid s) = config s"
  "calls (removeToast tid s) = calls s"
  "now (removeToast tid s) = now s"
  "length (elems (removeToast tid s)) = length (elems s)"
  by (simp_all add: removeToast_def setTimeout_def classList_add_def Let_def split: option.split)

lemma timers_removeToast:
  "timers (removeToast tid s) =
     timers s @ (case Map_get (toasts s) tid of
                   None \<Rightarrow> []
                 | Some toast \<Rightarrow> [\<lparr>due = now s + 300, callback_of = RemovalDone toast tid\<rparr>])"
  by (simp add: removeToast_def setTimeout_def classList_add_def Let_def split: option.split)

lemma elems_removeToast_nth [simp]:
  "toastId (elems (removeToast tid s) ! i) = toastId (elems s ! i)"
  "closeBtn (elems (removeToast tid s) ! i) = closeBtn (elems s ! i)"
  "onclick (elems (removeToast tid s) ! i) = onclick (elems s ! i)"
  "textContent (elems (removeToast tid s) ! i) = textContent (elems s ! i)"
  by (simp_all add: removeToast_def setTimeout_def classList_add_def Let_def nth_list_update
      split: option.split)

lemma elems_removeToast_other:
  "Map_get (toasts s) tid \<noteq> Some i \<Longrightarrow> elems (removeToast tid s) ! i = elems s ! i"
  by (simp add: removeToast_def setTimeout_def classList_add_def Let_def nth_list_update
      split: option.split)

lemma removing_removeToast:
  "Map_get (toasts s) tid = Some toast \<Longrightarrow> toast < length (elems s) \<Longrightarrow>
     removing (removeToast tid s) toast"
  by (simp add: removing_def removeToast_def setTimeout_def classList_add_def Let_def)

lemma removeToast_absent: "Map_get (toasts s) tid = None \<Longrightarrow> removeToast tid s = s"
  by (simp add: removeToast_def)

lemma classList_add_idem:
  "classList_add toast tok (classList_add toast tok s) = classList_add toast tok s"
  by (simp add: classList_add_def Let_def)

lemma removal_done_idem:
  "removal_done toast tid (removal_done toast tid s) = removal_done toast tid s"
  by (simp add: removal_done_def Let_def Map_delete_idem split: option.split)

lemma removal_done_fields [simp]:
  "toasts (removal_done toast tid s) = Map_delete tid (toasts s)"
  "config (removal_done toast tid s) = config s"
  "calls (removal_done toast tid s) = calls s"
  "now (removal_done toast tid s) = now s"
  "elems (removal_done toast tid s) = elems s"
  "timers (removal_done toast tid s) = timers s"
  by (simp_all add: removal_done_def Let_def split: option.split)

lemma container_removal_done:
  "container (removal_done toast tid s) = map_option (removeAll toast) (container s)"
  by (simp add: removal_done_def Let_def split: option.split)

subsection \<open>What \<open>limitToasts\<close> and \<open>show\<close> touch\<close>

lemma limitToasts_cases: "limitToasts s = s \<or> (\<exists>k. limitToasts s = removeToast k s)"
  by (auto simp: limitToasts_def split: list.split)

lemma limitToasts_fields [simp]:
  "toasts (limitToasts s) = toasts s"
  "container (limitToasts s) = container s"
  "config (limitToasts s) = config s"
  "calls (limitToasts s) = calls s"
  "now (limitToasts s) = now s"
  "length (elems (limitToasts s)) = length (elems s)"
  using limitToasts_cases [of s] by auto

lemma limitToasts_below: "\<not> at_capacity s \<Longrightarrow> limitToasts s = s"
  by (simp add: limitToasts_def at_capacity_def)

text \<open>With \<open>maxToasts\<close> holding \<open>undefined\<close> the test fails and nothing is ever evicted.\<close>

lemma limitToasts_undefined: "maxToasts (config s) = None \<Longrightarrow> limitToasts s = s"
  by (simp add: limitToasts_def)

lemma show_toast_id: "container s \<noteq> None \<Longrightarrow> snd (show_toast options tid s) = tid"
  by (auto simp: show_toast_def Let_def)

lemma show_toast_fields:
  assumes "container s = Some children"
  shows "toasts (fst (show_toast options tid s)) = Map_set tid (length (elems s)) (toasts s)"
    and "container (fst (show_toast options tid s)) = Some (children @ [length (elems s)])"
    and "elems (fst (show_toast options tid s)) = elems (limitToasts s) @ [new_toast options tid]"
    and "timers (fst (show_toast options tid s)) =
           timers (limitToasts s) @
             (if greater_than_zero (resolved_duration options s)
              then [\<lparr>due = now s + timer_delay (resolved_duration options s),
                     callback_of = AutoDismiss tid\<rparr>]
              else [])"
    and "config (fst (show_toast options tid s)) = config s"
    and "calls (fst (show_toast options tid s)) = calls s"
    and "now (fst (show_toast options tid s)) = now s"
  using assms
  by (simp_all add: show_toast_def Let_def setTimeout_def resolved_duration_def
      split: option.split)

lemma new_toast_fields [simp]:
  "toastId (new_toast options tid) = tid"
  "closeBtn (new_toast options tid) = (if closable options = Some False then None else Some tid)"
  "onclick (new_toast options tid) = onClick options"
  "textContent (new_toast options tid) = message options"
  by (simp_all add: new_toast_def)

subsection \<open>The store invariant holds in every reachable state\<close>

lemma wf_new_manager: "wf (new_manager has_window cfg)"
  by (simp add: wf_def new_manager_def initContainer_def)

lemma wf_registry:
  "wf s \<Longrightarrow> Map_get (toasts s) k = Some toast \<Longrightarrow>
     toast < length (elems s) \<and> toastId (elems s ! toast) = k"
  unfolding wf_def using Map_get_Some_set [of "toasts s" k toast] by fastforce

lemma wf_timers_subset:
  assumes "wf s" and "set ts \<subseteq> set (timers s)"
  shows "wf (s\<lparr>timers := ts, now := n\<rparr>)"
  using assms unfolding wf_def by (simp add: subset_iff)

lemma earliest_mem: "earliest t ts \<in> set (t # ts)"
  by (induction ts arbitrary: t) auto

lemma next_timer_mem: "next_timer s = Some t \<Longrightarrow> t \<in> set (timers s)"
  using earliest_mem by (auto simp: next_timer_def split: list.splits)

lemma entry_ok_removeToast: "entry_ok (elems s) p \<Longrightarrow> entry_ok (elems (removeToast tid s)) p"
  by (cases p) simp

lemma callback_ok_removeToast:
  "callback_ok (elems s) cb \<Longrightarrow> callback_ok (elems (removeToast tid s)) cb"
  by (cases cb) simp_all

lemma elems_removeToast_set:
  assumes "e \<in> set (elems (removeToast tid s))"
  shows "\<exists>e' \<in> set (elems s). toastId e' = toastId e \<and> closeBtn e' = closeBtn e"
proof -
  from assms obtain i where i: "i < length (elems s)" and e: "e = elems (removeToast tid s) ! i"
    by (auto simp: in_set_conv_nth)
  from i have "elems s ! i \<in> set (elems s)" by simp
  moreover have "toastId (elems s ! i) = toastId e" and "closeBtn (elems s ! i) = closeBtn e"
    using e by simp_all
  ultimately show ?thesis by blast
qed

lemma wf_removeToast:
  assumes "wf s"
  shows "wf (removeToast tid s)"
proof -
  have reg: "\<forall>p \<in> set (toasts (removeToast tid s)). entry_ok (elems (removeToast tid s)) p"
    using assms by (simp add: wf_def entry_ok_removeToast)
  have new: "Map_get (toasts s) tid = Some toast \<Longrightarrow>
      toast < length (elems s) \<and> toastId (elems s ! toast) = tid" for toast
    using assms by (rule wf_registry)
  have tim: "\<forall>t \<in> set (timers (removeToast tid s)).
      callback_ok (elems (removeToast tid s)) (callback_of t)"
    using assms new
    by (auto simp: wf_def timers_removeToast callback_ok_removeToast split: option.splits)
  have btn: "\<forall>e \<in> set (elems (removeToast tid s)). closeBtn e = None \<or> closeBtn e = Some (toastId e)"
  proof
    fix e assume "e \<in> set (elems (removeToast tid s))"
    then obtain e' where "e' \<in> set (elems s)" "toastId e' = toastId e" "closeBtn e' = closeBtn e"
      using elems_removeToast_set by blast
    with assms show "closeBtn e = None \<or> closeBtn e = Some (toastId e)"
      unfolding wf_def by metis
  qed
  have "distinct (map fst (toasts (removeToast tid s)))"
    using assms by (simp add: wf_def)
  with reg tim btn show ?thesis
    unfolding wf_def by blast
qed

lemma wf_limitToasts: "wf s \<Longrightarrow> wf (limitToasts s)"
  using limitToasts_cases [of s] wf_removeToast by auto

lemma wf_removal_done: "wf s \<Longrightarrow> wf (removal_done toast tid s)"
  unfolding wf_def by (simp add: set_Map_delete distinct_Map_delete)

lemma wf_run_callback: "wf s \<Longrightarrow> wf (run_callback cb s)"
  by (cases cb) (simp_all add: wf_removeToast wf_removal_done)

lemma wf_tick: "wf s \<Longrightarrow> wf (tick s)"
proof (cases "next_timer s")
  case None
  assume "wf s"
  with None show ?thesis by (simp add: tick_def)
next
  case (Some t)
  assume "wf s"
  moreover have "set (remove1 t (timers s)) \<subseteq> set (timers s)"
    by (rule set_remove1_subset)
  ultimately have "wf (s\<lparr>timers := remove1 t (timers s), now := max (now s) (due t)\<rparr>)"
    by (rule wf_timers_subset)
  with Some show ?thesis by (simp add: tick_def wf_run_callback)
qed

lemma wf_fold_removeToast: "wf s \<Longrightarrow> wf (fold removeToast ks s)"
  by (induction ks arbitrary: s) (simp_all add: wf_removeToast)

lemma wf_clear: "wf s \<Longrightarrow> wf (clear s)"
  by (simp add: clear_def wf_fold_removeToast)

lemma wf_click_closeBtn: "wf s \<Longrightarrow> wf (click_closeBtn toast s)"
  by (simp add: click_closeBtn_def closeBtn_onclick_def wf_removeToast split: option.split)

lemma wf_click_toast: "wf s \<Longrightarrow> wf (click_toast toast s)"
  by (simp add: click_toast_def toast_onclick_def wf_def split: option.split)

lemma entry_ok_append: "entry_ok es p \<Longrightarrow> entry_ok (es @ es') p"
  by (cases p) (simp add: nth_append)

lemma callback_ok_append: "callback_ok es cb \<Longrightarrow> callback_ok (es @ es') cb"
  by (cases cb) (simp_all add: nth_append)

lemma wf_show_toast:
  assumes "wf s"
  shows "wf (fst (show_toast options tid s))"
proof (cases "container s")
  case None
  with assms show ?thesis by (simp add: show_toast_def)
next
  case (Some children)
  let ?s1 = "limitToasts s"
  let ?s' = "fst (show_toast options tid s)"
  note f = show_toast_fields [OF Some, of options tid]
  have w1: "wf ?s1" using assms by (rule wf_limitToasts)
  have reg: "\<forall>p \<in> set (toasts ?s'). entry_ok (elems ?s') p"
  proof
    fix p assume "p \<in> set (toasts ?s')"
    then have "p = (tid, length (elems s)) \<or> p \<in> set (toasts ?s1)"
      using set_Map_set [of tid "length (elems s)" "toasts s"] by (auto simp: f)
    then show "entry_ok (elems ?s') p"
    proof
      assume "p = (tid, length (elems s))"
      then show ?thesis by (simp add: f nth_append)
    next
      assume "p \<in> set (toasts ?s1)"
      with w1 have "entry_ok (elems ?s1) p"
        unfolding wf_def by blast
      then show ?thesis by (simp add: f entry_ok_append)
    qed
  qed
  have tim: "\<forall>t \<in> set (timers ?s'). callback_ok (elems ?s') (callback_of t)"
  proof
    fix t assume "t \<in> set (timers ?s')"
    then have "t \<in> set (timers ?s1) \<or> callback_of t = AutoDismiss tid"
      by (auto simp: f split: if_splits)
    then show "callback_ok (elems ?s') (callback_of t)"
    proof
      assume "t \<in> set (timers ?s1)"
      with w1 have "callback_ok (elems ?s1) (callback_of t)"
        unfolding wf_def by blast
      then show ?thesis by (simp add: f callback_ok_append)
    next
      assume "callback_of t = AutoDismiss tid"
      then show ?thesis by simp
    qed
  qed
  have btn: "\<forall>e \<in> set (elems ?s'). closeBtn e = None \<or> closeBtn e = Some (toastId e)"
    using w1 unfolding wf_def by (auto simp: f)
  have "distinct (map fst (toasts ?s'))"
    using assms by (simp add: f wf_def distinct_Map_set)
  with reg tim btn show ?thesis
    unfolding wf_def by blast
qed

lemma wf_step: "wf s \<Longrightarrow> wf (step e s)"
  by (cases e)
    (simp_all add: wf_show_toast wf_removeToast wf_clear wf_tick wf_click_closeBtn wf_click_toast)

lemma wf_run: "wf s \<Longrightarrow> wf (run es s)"
  unfolding run_def by (induction es arbitrary: s) (simp_all add: wf_step)

lemma wf_reachable: "wf (run es (new_manager has_window cfg))"
  by (simp add: wf_run wf_new_manager)

subsection \<open>The concrete managers, evaluated\<close>

lemma shown_y_eq:
  "shown_y =
     \<lparr>container = Some [0], toasts = [(''k1'', 0)], config = default_config,
      elems = [\<lparr>classes = [''toasavi-toast'', ''toasavi-info''], toastId = ''k1'',
                textContent = ''y'', closeBtn = Some ''k1'', onclick = Some 1\<rparr>],
      timers = [\<lparr>due = 4000, callback_of = AutoDismiss ''k1''\<rparr>], now = 0, calls = []\<rparr>"
  by code_simp

lemma wf_shown_y: "wf shown_y"
  by (simp add: shown_y_eq wf_def)

lemma two_toasts_eq:
  "two_toasts =
     \<lparr>container = Some [0, 1], toasts = [(''ka'', 0), (''kb'', 1)], config = default_config,
      elems = [\<lparr>classes = [''toasavi-toast'', ''toasavi-info''], toastId = ''ka'',
                textContent = ''a'', closeBtn = Some ''ka'', onclick = None\<rparr>,
               \<lparr>classes = [''toasavi-toast'', ''toasavi-info''], toastId = ''kb'',
                textContent = ''b'', closeBtn = Some ''kb'', onclick = None\<rparr>],
      timers = [\<lparr>due = 4000, callback_of = AutoDismiss ''ka''\<rparr>,
                \<lparr>due = 4000, callback_of = AutoDismiss ''kb''\<rparr>],
      now = 0, calls = []\<rparr>"
  by code_simp

lemma wf_two_toasts: "wf two_toasts"
  unfolding two_toasts_def by (rule wf_reachable)

lemma wf_capacity: "wf (run es (manager_of_capacity n))"
  unfolding manager_of_capacity_def by (rule wf_reachable)

lemma wf_full_two: "wf full_two"
  unfolding full_two_def by (rule wf_capacity)

lemma undisturbed_example:
  "undisturbed ''kx'' [Show (just ''y'') ''ky'', Tick, ClickToast 0, RemoveToast ''ky'', Tick]
     (fst (show_toast persistent ''kx'' (new_manager True None)))"
  by code_simp

subsection \<open>No display surface\<close>

lemma new_manager_no_window: "container (new_manager False cfg) = None"
  by (simp add: new_manager_def initContainer_def)

text \<open>
  C5. When the manager has no container, as after construction without a \<open>window\<close>,
  \<open>show\<close> returns the empty identifier and leaves the whole state as it was: the
  registry, the element store, the pending timers and the log of invoked callbacks
  are unchanged. \<open>show\<close> has no failing branch.
\<close>

theorem show_without_container:
  "container s = None \<Longrightarrow> show_toast options tid s = (s, '''')"
  by (simp add: show_toast_def)

theorem show_without_container_witness:
  "container (new_manager False None) = None \<and>
   show_toast (just ''x'') ''k1'' (new_manager False None) = (new_manager False None, '''')"
  using show_without_container [of "new_manager False None" "just ''x''" "''k1''"]
  by (simp add: new_manager_def initContainer_def)

subsection \<open>The close button\<close>

text \<open>
  C9. A \<open>show\<close> on a manager with a container registers the new element under the
  returned id and attaches it, and the element has a close button unless \<open>closable\<close>
  is exactly \<open>false\<close>; with \<open>closable\<close> omitted the button is there.
\<close>

theorem closeBtn_unless_closable_false:
  assumes "container s \<noteq> None"
  shows "Map_get (toasts (fst (show_toast options tid s))) tid = Some (length (elems s))
       \<and> attached (fst (show_toast options tid s)) (length (elems s))
       \<and> closeBtn (elems (fst (show_toast options tid s)) ! length (elems s)) =
           (if closable options = Some False then None else Some tid)"
proof -
  from assms obtain children where c: "container s = Some children" by auto
  show ?thesis
    by (simp add: show_toast_fields [OF c] Map_get_set attached_def nth_append)
qed

theorem closeBtn_unless_closable_false_witness:
  "container (new_manager True None) \<noteq> None \<and>
   closeBtn (elems (fst (show_toast (just ''x'') ''k1'' (new_manager True None))) ! 0) = Some ''k1''"
  using closeBtn_unless_closable_false [of "new_manager True None" "just ''x''" "''k1''"]
  by (simp add: new_manager_def initContainer_def just_def)

text \<open>
  C8. A click on the close button of a stored toast stops the propagation of the
  event, is the call of \<open>removeToast\<close> with the id of that toast, and invokes no
  caller function: the toast's own \<open>onClick\<close> is not called for that click.
\<close>

theorem click_closeBtn_removes:
  assumes "wf s" and "toast < length (elems s)" and "closeBtn (elems s ! toast) \<noteq> None"
  shows "fst (closeBtn_onclick (toastId (elems s ! toast)) (False, s))
       \<and> click_closeBtn toast s = removeToast (toastId (elems s ! toast)) s
       \<and> calls (click_closeBtn toast s) = calls s"
proof -
  from assms(2) have "elems s ! toast \<in> set (elems s)"
    by simp
  with assms(1) have "closeBtn (elems s ! toast) = None
      \<or> closeBtn (elems s ! toast) = Some (toastId (elems s ! toast))"
    unfolding wf_def by blast
  with assms(3) have b: "closeBtn (elems s ! toast) = Some (toastId (elems s ! toast))"
    by (cases "closeBtn (elems s ! toast)") simp_all
  have "click_closeBtn toast s = removeToast (toastId (elems s ! toast)) s"
    using assms(2) b by (simp add: click_closeBtn_def closeBtn_onclick_def)
  then show ?thesis by (simp add: closeBtn_onclick_def)
qed

theorem click_closeBtn_removes_witness:
  "wf shown_y \<and> 0 < length (elems shown_y) \<and> closeBtn (elems shown_y ! 0) \<noteq> None
   \<and> onclick (elems shown_y ! 0) = Some 1
   \<and> click_closeBtn 0 shown_y = removeToast ''k1'' shown_y
   \<and> calls (click_closeBtn 0 shown_y) = []"
proof -
  have w: "wf shown_y" by (rule wf_shown_y)
  have l: "0 < length (elems shown_y)" by (simp add: shown_y_eq)
  have b: "closeBtn (elems shown_y ! 0) \<noteq> None" by (simp add: shown_y_eq)
  show ?thesis
    using click_closeBtn_removes [OF w l b] w by (simp add: shown_y_eq)
qed

subsection \<open>Idempotent removal\<close>

text \<open>
  C7. \<open>removeToast\<close> with an id that is not in the registry changes nothing. A second
  call right after a first one changes neither the registry nor the container nor
  the stored elements. Once the completion callback has run, the id is out of the
  registry and the element is detached, and in such a state both a further
  completion callback and a further \<open>removeToast\<close> change nothing.
\<close>

theorem removeToast_idempotent:
  "(Map_get (toasts s) tid = None \<longrightarrow> removeToast tid s = s)
   \<and> toasts (removeToast tid (removeToast tid s)) = toasts (removeToast tid s)
   \<and> container (removeToast tid (removeToast tid s)) = container (removeToast tid s)
   \<and> elems (removeToast tid (removeToast tid s)) = elems (removeToast tid s)
   \<and> Map_get (toasts (removal_done toast tid s)) tid = None
   \<and> \<not> attached (removal_done toast tid s) toast
   \<and> (Map_get (toasts s) tid = None \<and> \<not> attached s toast \<longrightarrow> removal_done toast tid s = s)"
proof -
  have "elems (removeToast tid (removeToast tid s)) = elems (removeToast tid s)"
    by (simp add: removeToast_def setTimeout_def classList_add_def Let_def split: option.split)
  moreover have "\<not> attached (removal_done toast tid s) toast"
    by (simp add: attached_def container_removal_done split: option.split)
  moreover have "Map_get (toasts s) tid = None \<and> \<not> attached s toast \<longrightarrow> removal_done toast tid s = s"
    by (simp add: removal_done_def attached_def Map_delete_absent split: option.split)
  ultimately show ?thesis
    by (simp add: removeToast_absent Map_get_delete)
qed

theorem removeToast_idempotent_witness:
  "Map_get (toasts shown_y) ''zz'' = None \<and> removeToast ''zz'' shown_y = shown_y
   \<and> Map_get (toasts (removal_done 0 ''k1'' shown_y)) ''k1'' = None
   \<and> \<not> attached (removal_done 0 ''k1'' shown_y) 0
   \<and> removal_done 0 ''k1'' (removal_done 0 ''k1'' shown_y) = removal_done 0 ''k1'' shown_y"
proof -
  have a: "Map_get (toasts shown_y) ''zz'' = None" by (simp add: shown_y_eq)
  have b: "Map_get (toasts (removal_done 0 ''k1'' shown_y)) ''k1'' = None
       \<and> \<not> attached (removal_done 0 ''k1'' shown_y) 0"
    using removeToast_idempotent [of shown_y "''k1''" 0] by simp
  show ?thesis
    using removeToast_idempotent [of shown_y "''zz''" 0] a b
      removeToast_idempotent [of "removal_done 0 ''k1'' shown_y" "''k1''" 0]
    by simp
qed

subsection \<open>The frame of \<open>removeToast\<close>\<close>

text \<open>
  C10. In a state that satisfies the store invariant, \<open>removeToast\<close> with id \<open>i\<close>
  leaves the configuration, the registry entry of every other id \<open>j\<close> and the element
  of \<open>j\<close> (its content and whether it is attached) as they were; the same holds of
  the completion callback that \<open>removeToast\<close> schedules for \<open>i\<close>.
\<close>

theorem removeToast_frame:
  assumes "wf s" and "i \<noteq> j"
  shows "config (removeToast i s) = config s
       \<and> Map_get (toasts (removeToast i s)) j = Map_get (toasts s) j
       \<and> (\<forall>toast. Map_get (toasts s) j = Some toast \<longrightarrow>
             elems (removeToast i s) ! toast = elems s ! toast
             \<and> attached (removeToast i s) toast = attached s toast)
       \<and> (\<forall>ti. entry_ok (elems s) (i, ti) \<longrightarrow>
             config (removal_done ti i s) = config s
             \<and> Map_get (toasts (removal_done ti i s)) j = Map_get (toasts s) j
             \<and> (\<forall>toast. Map_get (toasts s) j = Some toast \<longrightarrow>
                   elems (removal_done ti i s) ! toast = elems s ! toast
                   \<and> attached (removal_done ti i s) toast = attached s toast))"
proof -
  have other: "ti \<noteq> toast"
    if "toastId (elems s ! ti) = i" and "Map_get (toasts s) j = Some toast" for ti toast
  proof
    assume "ti = toast"
    moreover from assms(1) that(2) have "toastId (elems s ! toast) = j"
      by (simp add: wf_registry)
    ultimately show False using that(1) assms(2) by simp
  qed
  have call: "elems (removeToast i s) ! toast = elems s ! toast"
    if j: "Map_get (toasts s) j = Some toast" for toast
  proof (rule elems_removeToast_other)
    show "Map_get (toasts s) i \<noteq> Some toast"
    proof
      assume "Map_get (toasts s) i = Some toast"
      with assms(1) have "toastId (elems s ! toast) = i" by (simp add: wf_registry)
      with other [OF _ j] show False by blast
    qed
  qed
  have compl: "attached (removal_done ti i s) toast = attached s toast"
    if "entry_ok (elems s) (i, ti)" and "Map_get (toasts s) j = Some toast" for ti toast
    using other [of ti toast] that
    by (auto simp: attached_def container_removal_done split: option.split)
  show ?thesis
    using assms(2) call compl by (simp add: Map_get_delete attached_def)
qed

theorem removeToast_frame_witness:
  "wf two_toasts \<and> ''ka'' \<noteq> ''kb''
   \<and> Map_get (toasts two_toasts) ''kb'' = Some 1
   \<and> Map_get (toasts (removeToast ''ka'' two_toasts)) ''kb'' = Some 1
   \<and> elems (removeToast ''ka'' two_toasts) ! 1 = elems two_toasts ! 1
   \<and> attached (removeToast ''ka'' two_toasts) 1
   \<and> Map_get (toasts (removal_done 0 ''ka'' two_toasts)) ''kb'' = Some 1
   \<and> attached (removal_done 0 ''ka'' two_toasts) 1"
proof -
  have n: "''ka'' \<noteq> ''kb''" by simp
  have j: "Map_get (toasts two_toasts) ''kb'' = Some 1" by (simp add: two_toasts_eq)
  have e: "entry_ok (elems two_toasts) (''ka'', 0)" by (simp add: two_toasts_eq)
  have a: "attached two_toasts 1" by (simp add: two_toasts_eq attached_def)
  note frame = removeToast_frame [OF wf_two_toasts n]
  from frame j a have call: "Map_get (toasts (removeToast ''ka'' two_toasts)) ''kb'' = Some 1
      \<and> elems (removeToast ''ka'' two_toasts) ! 1 = elems two_toasts ! 1
      \<and> attached (removeToast ''ka'' two_toasts) 1"
    by simp
  from frame e have "Map_get (toasts (removal_done 0 ''ka'' two_toasts)) ''kb''
        = Map_get (toasts two_toasts) ''kb''
      \<and> (\<forall>toast. Map_get (toasts two_toasts) ''kb'' = Some toast \<longrightarrow>
            elems (removal_done 0 ''ka'' two_toasts) ! toast = elems two_toasts ! toast
            \<and> attached (removal_done 0 ''ka'' two_toasts) toast = attached two_toasts toast)"
    by blast
  with j a have "Map_get (toasts (removal_done 0 ''ka'' two_toasts)) ''kb'' = Some 1
      \<and> attached (removal_done 0 ''ka'' two_toasts) 1"
    by simp
  with call j n wf_two_toasts show ?thesis by simp
qed

subsection \<open>Timers are never cancelled\<close>

text \<open>
  C3, as stated, fails. After \<open>show\<close> with the default duration, \<open>removeToast\<close> and
  the completion of the exit transition, the auto-dismiss timer of the toast is
  still pending. With a duration of 100 ms the timer fires during the exit
  transition, and then two completion callbacks for the same record are pending:
  one from the manual call and one from the timer.
\<close>

theorem removeToast_keeps_timer_counterexample:
  "timers (run [Show (just ''x'') ''kx'', RemoveToast ''kx'', Tick] (new_manager True None)) =
     [\<lparr>due = 4000, callback_of = AutoDismiss ''kx''\<rparr>]
   \<and> timers (run [Show brief ''kx'', RemoveToast ''kx'', Tick] (new_manager True None)) =
     [\<lparr>due = 300, callback_of = RemovalDone 0 ''kx''\<rparr>,
      \<lparr>due = 400, callback_of = RemovalDone 0 ''kx''\<rparr>]"
  by code_simp

text \<open>
  C3, amended. \<open>removeToast\<close> cancels no timer: the timers pending before the call
  are pending after it, followed by the new completion callback when the id is
  registered. An auto-dismiss timer that fires when its id is no longer registered
  changes nothing; when it fires at any time it changes neither the registry nor
  the container. A completion callback that runs when the id is out of the registry
  and the element is detached changes nothing.
\<close>

theorem removeToast_never_cancels:
  "timers (removeToast tid s) =
     timers s @ (case Map_get (toasts s) tid of
                   None \<Rightarrow> []
                 | Some toast \<Rightarrow> [\<lparr>due = now s + 300, callback_of = RemovalDone toast tid\<rparr>])
   \<and> (Map_get (toasts s) tid = None \<longrightarrow> run_callback (AutoDismiss tid) s = s)
   \<and> toasts (run_callback (AutoDismiss tid) s) = toasts s
   \<and> container (run_callback (AutoDismiss tid) s) = container s
   \<and> (Map_get (toasts s) tid = None \<and> \<not> attached s toast \<longrightarrow>
        run_callback (RemovalDone toast tid) s = s)"
  by (simp add: timers_removeToast removeToast_absent removal_done_def attached_def
      Map_delete_absent split: option.split)

theorem removeToast_never_cancels_witness:
  "Map_get (toasts gone_y) ''k1'' = None \<and> \<not> attached gone_y 0
   \<and> run_callback (AutoDismiss ''k1'') gone_y = gone_y
   \<and> run_callback (RemovalDone 0 ''k1'') gone_y = gone_y
   \<and> timers gone_y = [\<lparr>due = 4000, callback_of = AutoDismiss ''k1''\<rparr>]
   \<and> timers (removeToast ''k1'' shown_y) =
        [\<lparr>due = 4000, callback_of = AutoDismiss ''k1''\<rparr>,
         \<lparr>due = 300, callback_of = RemovalDone 0 ''k1''\<rparr>]"
proof -
  have g: "Map_get (toasts gone_y) ''k1'' = None" by code_simp
  have a: "\<not> attached gone_y 0" by code_simp
  have t: "timers gone_y = [\<lparr>due = 4000, callback_of = AutoDismiss ''k1''\<rparr>]" by code_simp
  have "timers (removeToast ''k1'' shown_y) =
      [\<lparr>due = 4000, callback_of = AutoDismiss ''k1''\<rparr>,
       \<lparr>due = 300, callback_of = RemovalDone 0 ''k1''\<rparr>]"
    using removeToast_never_cancels [of "''k1''" shown_y 0] by (simp add: shown_y_eq)
  then show ?thesis
    using removeToast_never_cancels [of "''k1''" gone_y 0] g a t by simp
qed

subsection \<open>A registered toast stays until its removal is requested\<close>

lemma kept_removeToast:
  assumes "kept tid toast s" and "k \<noteq> tid"
  shows "kept tid toast (removeToast k s)"
  using assms
  by (auto simp: kept_def wf_removeToast attached_def timers_removeToast split: option.splits)

lemma kept_removal_done:
  assumes "kept tid toast s" and "entry_ok (elems s) (k, r)" and "k \<noteq> tid"
  shows "kept tid toast (removal_done r k s)"
proof -
  from assms(1) have "toastId (elems s ! toast) = tid"
    by (simp add: kept_def wf_registry)
  with assms(2,3) have "r \<noteq> toast" by auto
  with assms(1,3) show ?thesis
    by (auto simp: kept_def wf_removal_done Map_get_delete attached_def container_removal_done
        split: option.splits)
qed

lemma kept_tick:
  assumes "kept tid toast s"
  shows "kept tid toast (tick s)"
proof (cases "next_timer s")
  case None
  with assms show ?thesis by (simp add: tick_def)
next
  case (Some t)
  let ?u = "s\<lparr>timers := remove1 t (timers s), now := max (now s) (due t)\<rparr>"
  have mem: "t \<in> set (timers s)" using Some by (rule next_timer_mem)
  have sub: "set (remove1 t (timers s)) \<subseteq> set (timers s)" by (rule set_remove1_subset)
  have "wf ?u" using assms sub by (simp add: kept_def wf_timers_subset)
  with assms sub have u: "kept tid toast ?u"
    by (auto simp: kept_def attached_def)
  from assms mem have ok: "callback_ok (elems s) (callback_of t)"
    and ne: "callback_id (callback_of t) \<noteq> tid"
    by (auto simp: kept_def wf_def)
  have "kept tid toast (run_callback (callback_of t) ?u)"
  proof (cases "callback_of t")
    case (AutoDismiss k)
    with ne u show ?thesis by (simp add: kept_removeToast)
  next
    case (RemovalDone r k)
    with ok have "entry_ok (elems ?u) (k, r)" by simp
    with RemovalDone ne u show ?thesis by (simp add: kept_removal_done)
  qed
  with Some show ?thesis by (simp add: tick_def)
qed

lemma kept_limitToasts:
  assumes "kept tid toast s"
    and "\<not> (at_capacity s \<and>
            (case toasts s of [] \<Rightarrow> False
             | (_, firstToast) # _ \<Rightarrow> toastId (elems s ! firstToast) = tid))"
  shows "kept tid toast (limitToasts s)"
  using assms by (auto simp: limitToasts_def at_capacity_def kept_removeToast split: list.splits)

lemma kept_show_toast:
  assumes "kept tid toast s" and "\<not> disturbs tid (Show options k) s"
  shows "kept tid toast (fst (show_toast options k s))"
proof -
  from assms(1) obtain children where c: "container s = Some children"
    by (auto simp: kept_def attached_def split: option.splits)
  note f = show_toast_fields [OF c, of options k]
  from assms(2) c have k: "k \<noteq> tid" by simp
  from assms c have l: "kept tid toast (limitToasts s)"
    by (intro kept_limitToasts) auto
  have "wf (fst (show_toast options k s))"
    using assms(1) by (simp add: kept_def wf_show_toast)
  moreover have "Map_get (toasts (fst (show_toast options k s))) tid = Some toast"
    using assms(1) k by (simp add: f Map_get_set kept_def)
  moreover have "attached (fst (show_toast options k s)) toast"
    using assms(1) c by (simp add: f attached_def kept_def)
  moreover have "\<forall>t \<in> set (timers (fst (show_toast options k s))). callback_id (callback_of t) \<noteq> tid"
    using l k by (auto simp: f kept_def)
  ultimately show ?thesis by (simp add: kept_def)
qed

lemma kept_step:
  assumes "kept tid toast s" and "\<not> disturbs tid e s"
  shows "kept tid toast (step e s)"
proof (cases e)
  case (Show options k)
  with assms have "kept tid toast (fst (show_toast options k s))"
    by (intro kept_show_toast) simp_all
  with Show show ?thesis by simp
next
  case (RemoveToast k)
  with assms show ?thesis by (simp add: kept_removeToast)
next
  case Clear
  with assms show ?thesis by simp
next
  case Tick
  with assms show ?thesis by (simp add: kept_tick)
next
  case (ClickClose r)
  with assms show ?thesis
    by (auto simp: click_closeBtn_def closeBtn_onclick_def kept_removeToast split: option.splits)
next
  case (ClickToast r)
  with assms show ?thesis
    by (auto simp: click_toast_def toast_onclick_def kept_def wf_def attached_def
        split: option.splits)
qed

lemma kept_run:
  "kept tid toast s \<Longrightarrow> undisturbed tid es s \<Longrightarrow> kept tid toast (run es s)"
  unfolding run_def by (induction es arbitrary: s) (simp_all add: kept_step)

lemma kept_after_show:
  assumes "container s \<noteq> None" and "wf s" and "fresh tid s"
    and "\<not> greater_than_zero (resolved_duration options s)"
  shows "kept tid (length (elems s)) (fst (show_toast options tid s))"
proof -
  from assms(1) obtain children where c: "container s = Some children" by auto
  note f = show_toast_fields [OF c, of options tid]
  have lim: "\<forall>t \<in> set (timers (limitToasts s)). callback_id (callback_of t) \<noteq> tid"
  proof -
    have "limitToasts s = s \<or> (\<exists>k. limitToasts s = removeToast k s)"
      by (rule limitToasts_cases)
    then show ?thesis
    proof
      assume "limitToasts s = s"
      with assms(3) show ?thesis by (simp add: fresh_def)
    next
      assume "\<exists>k. limitToasts s = removeToast k s"
      then obtain k where k: "limitToasts s = removeToast k s" ..
      show ?thesis
      proof (cases "Map_get (toasts s) k")
        case None
        with k assms(3) show ?thesis by (simp add: fresh_def removeToast_absent)
      next
        case (Some r)
        with assms(3) have "k \<noteq> tid" by (auto simp: fresh_def)
        with k Some assms(3) show ?thesis by (auto simp: fresh_def timers_removeToast)
      qed
    qed
  qed
  have "wf (fst (show_toast options tid s))"
    using assms(2) by (rule wf_show_toast)
  with lim assms(4) show ?thesis
    by (simp add: kept_def f Map_get_set attached_def)
qed

subsection \<open>The auto-dismiss timer\<close>

text \<open>
  A duration of \<open>2^31\<close> milliseconds, of \<open>Infinity\<close> or of half a millisecond is
  greater than 0, so a timer is scheduled, and its delay is 0.
\<close>

lemma long_duration_fires_at_once:
  "timers (fst (show_toast ((just ''x'')\<lparr>duration := Some (Num 2147483648)\<rparr>) ''kx''
      (new_manager True None))) = [\<lparr>due = 0, callback_of = AutoDismiss ''kx''\<rparr>]
   \<and> timers (fst (show_toast ((just ''x'')\<lparr>duration := Some Infinity\<rparr>) ''kx''
      (new_manager True None))) = [\<lparr>due = 0, callback_of = AutoDismiss ''kx''\<rparr>]
   \<and> timers (fst (show_toast ((just ''x'')\<lparr>duration := Some (Num (1 / 2))\<rparr>) ''kx''
      (new_manager True None))) = [\<lparr>due = 0, callback_of = AutoDismiss ''kx''\<rparr>]"
  by code_simp

text \<open>
  C6, as stated, fails in its last part. In a manager of capacity 1 a toast shown
  with duration 0 has no timer, and a second \<open>show\<close> followed by the completion of
  the exit transition removes it from the registry: no \<open>removeToast\<close> and no \<open>clear\<close>
  was called by anyone but the capacity check.
\<close>

theorem show_persistent_counterexample:
  "Map_get (toasts (run [Show persistent ''kx''] (manager_of_capacity 1))) ''kx'' = Some 0
   \<and> timers (run [Show persistent ''kx''] (manager_of_capacity 1)) = []
   \<and> Map_get (toasts (run [Show persistent ''kx'', Show persistent ''ky'', Tick]
        (manager_of_capacity 1))) ''kx'' = None"
  by code_simp

text \<open>
  C6, amended. For a \<open>show\<close> on a manager with a container: when the resolved
  duration is greater than 0, exactly one timer is added after the work of the
  capacity check; its callback is \<open>removeToast\<close> with the new id, and the turn of the
  event loop that fires it takes it out of the queue. The timer is due after the
  delay \<open>setTimeout\<close> derives from the duration, which is the duration itself when
  that is a whole number of milliseconds below \<open>2^31\<close>. When the resolved
  duration is not greater than 0 (0, negative, \<open>NaN\<close> or \<open>undefined\<close>) no timer is
  added. Then, in a state that satisfies the store invariant (as every reachable
  state does) and with an id that no registry entry and no pending callback uses,
  the toast stays registered and
  attached through every run of events none of which calls \<open>removeToast\<close> with its
  id (explicitly, through \<open>clear\<close>, through a click on a close button of that id
  or through the capacity check of a later \<open>show\<close>) and none of which is a \<open>show\<close>
  that returns the same id again.
\<close>

theorem show_schedules_auto_dismiss:
  assumes "container s \<noteq> None"
  shows "(greater_than_zero (resolved_duration options s) \<longrightarrow>
            timers (fst (show_toast options tid s)) =
              timers (limitToasts s) @
                [\<lparr>due = now s + timer_delay (resolved_duration options s),
                  callback_of = AutoDismiss tid\<rparr>])
       \<and> (\<forall>n. resolved_duration options s = Num (of_int n) \<and> 0 < n \<and> n < 2147483648 \<longrightarrow>
            timers (fst (show_toast options tid s)) =
              timers (limitToasts s) @ [\<lparr>due = now s + n, callback_of = AutoDismiss tid\<rparr>])
       \<and> run_callback (AutoDismiss tid) = removeToast tid
       \<and> (\<forall>u t. next_timer u = Some t \<and> callback_of t = AutoDismiss tid \<longrightarrow>
             tick u = removeToast tid (u\<lparr>timers := remove1 t (timers u), now := max (now u) (due t)\<rparr>))
       \<and> (\<not> greater_than_zero (resolved_duration options s) \<longrightarrow>
             timers (fst (show_toast options tid s)) = timers (limitToasts s)
             \<and> (wf s \<and> fresh tid s \<longrightarrow>
                  (\<forall>es. undisturbed tid es (fst (show_toast options tid s)) \<longrightarrow>
                     Map_get (toasts (run es (fst (show_toast options tid s)))) tid
                       = Some (length (elems s))
                     \<and> attached (run es (fst (show_toast options tid s))) (length (elems s)))))"
proof -
  from assms obtain children where c: "container s = Some children" by auto
  note f = show_toast_fields [OF c, of options tid]
  have whole: "timers (fst (show_toast options tid s)) =
      timers (limitToasts s) @ [\<lparr>due = now s + n, callback_of = AutoDismiss tid\<rparr>]"
    if "resolved_duration options s = Num (of_int n)" and "0 < n" and "n < 2147483648" for n
  proof -
    from that(2,3) have "timer_delay (Num (of_int n)) = n"
      by (simp add: timer_delay_whole)
    with that show ?thesis by (simp add: f)
  qed
  have "run_callback (AutoDismiss tid) = removeToast tid"
    by (rule ext) simp
  moreover have "\<forall>u t. next_timer u = Some t \<and> callback_of t = AutoDismiss tid \<longrightarrow>
      tick u = removeToast tid (u\<lparr>timers := remove1 t (timers u), now := max (now u) (due t)\<rparr>)"
    by (simp add: tick_def)
  moreover have "\<forall>es. undisturbed tid es (fst (show_toast options tid s)) \<longrightarrow>
        Map_get (toasts (run es (fst (show_toast options tid s)))) tid = Some (length (elems s))
        \<and> attached (run es (fst (show_toast options tid s))) (length (elems s))"
    if "\<not> greater_than_zero (resolved_duration options s)" and "wf s" and "fresh tid s"
  proof (intro allI impI)
    fix es assume u: "undisturbed tid es (fst (show_toast options tid s))"
    have "kept tid (length (elems s)) (fst (show_toast options tid s))"
      using assms that(2,3,1) by (rule kept_after_show)
    then have "kept tid (length (elems s)) (run es (fst (show_toast options tid s)))"
      using u by (rule kept_run)
    then show "Map_get (toasts (run es (fst (show_toast options tid s)))) tid
          = Some (length (elems s))
        \<and> attached (run es (fst (show_toast options tid s))) (length (elems s))"
      by (simp add: kept_def)
  qed
  moreover have "\<forall>n. resolved_duration options s = Num (of_int n) \<and> 0 < n \<and> n < 2147483648 \<longrightarrow>
      timers (fst (show_toast options tid s)) =
        timers (limitToasts s) @ [\<lparr>due = now s + n, callback_of = AutoDismiss tid\<rparr>]"
    using whole by blast
  ultimately show ?thesis by (simp add: f)
qed

theorem show_schedules_auto_dismiss_witness:
  "container (new_manager True None) \<noteq> None \<and> wf (new_manager True None)
   \<and> fresh ''kx'' (new_manager True None)
   \<and> \<not> greater_than_zero (resolved_duration persistent (new_manager True None))
   \<and> timers (fst (show_toast persistent ''kx'' (new_manager True None))) = []
   \<and> Map_get (toasts (run [Show (just ''y'') ''ky'', Tick, ClickToast 0, RemoveToast ''ky'', Tick]
        (fst (show_toast persistent ''kx'' (new_manager True None))))) ''kx'' = Some 0
   \<and> resolved_duration (just ''y'') (new_manager True None) = Num (of_int 4000)
   \<and> (0::int) < 4000 \<and> (4000::int) < 2147483648
   \<and> timers (fst (show_toast (just ''y'') ''kx'' (new_manager True None))) =
        [\<lparr>due = 4000, callback_of = AutoDismiss ''kx''\<rparr>]"
proof -
  have c: "container (new_manager True None) \<noteq> None"
    by (simp add: new_manager_def initContainer_def)
  have w: "wf (new_manager True None)" by (rule wf_new_manager)
  have f: "fresh ''kx'' (new_manager True None)"
    by (simp add: fresh_def new_manager_def initContainer_def)
  have d0: "\<not> greater_than_zero (resolved_duration persistent (new_manager True None))"
    by (simp add: resolved_duration_def persistent_def)
  have d1: "resolved_duration (just ''y'') (new_manager True None) = Num (of_int 4000)"
    by (simp add: resolved_duration_def just_def new_manager_def initContainer_def
        default_config_def)
  have l: "timers (limitToasts (new_manager True None)) = []"
    by (simp add: limitToasts_def new_manager_def initContainer_def)
  have n: "now (new_manager True None) = 0"
    by (simp add: new_manager_def initContainer_def)
  note p = show_schedules_auto_dismiss [OF c, of persistent "''kx''"]
  note q = show_schedules_auto_dismiss [OF c, of "just ''y''" "''kx''"]
  from p d0 w f undisturbed_example have
    "timers (fst (show_toast persistent ''kx'' (new_manager True None)))
       = timers (limitToasts (new_manager True None))
     \<and> Map_get (toasts (run [Show (just ''y'') ''ky'', Tick, ClickToast 0, RemoveToast ''ky'', Tick]
        (fst (show_toast persistent ''kx'' (new_manager True None))))) ''kx''
        = Some (length (elems (new_manager True None)))"
    by blast
  moreover have "(0::int) < 4000" and "(4000::int) < 2147483648"
    by simp_all
  with q d1 have
    "timers (fst (show_toast (just ''y'') ''kx'' (new_manager True None))) =
       timers (limitToasts (new_manager True None)) @
        [\<lparr>due = now (new_manager True None) + 4000, callback_of = AutoDismiss ''kx''\<rparr>]"
    by blast
  ultimately show ?thesis
    using c w f d0 d1 l n by (simp add: new_manager_def initContainer_def)
qed

subsection \<open>Runs without a call of \<open>show\<close>\<close>

lemma fold_removeToast_fields [simp]:
  "toasts (fold removeToast ks s) = toasts s"
  by (induction ks arbitrary: s) simp_all

lemma timers_removeToast_mono: "t \<in> set (timers s) \<Longrightarrow> t \<in> set (timers (removeToast k s))"
  by (simp add: timers_removeToast)

lemma timers_fold_removeToast_mono:
  "t \<in> set (timers s) \<Longrightarrow> t \<in> set (timers (fold removeToast ks s))"
  by (induction ks arbitrary: s) (simp_all add: timers_removeToast_mono)

lemma toasts_run_callback:
  "toasts (run_callback cb s) = toasts s \<or> (\<exists>k. toasts (run_callback cb s) = Map_delete k (toasts s))"
  by (cases cb) auto

lemma toasts_step:
  assumes "\<not> is_show e"
  shows "toasts (step e s) = toasts s \<or> (\<exists>k. toasts (step e s) = Map_delete k (toasts s))"
proof (cases e)
  case (Show options k)
  with assms show ?thesis by simp
next
  case (RemoveToast k)
  then show ?thesis by simp
next
  case Clear
  then show ?thesis by (simp add: clear_def)
next
  case Tick
  show ?thesis
  proof (cases "next_timer s")
    case None
    with Tick show ?thesis by (simp add: tick_def)
  next
    case (Some t)
    with Tick toasts_run_callback [of "callback_of t"
        "s\<lparr>timers := remove1 t (timers s), now := max (now s) (due t)\<rparr>"]
    show ?thesis by (simp add: tick_def)
  qed
next
  case (ClickClose r)
  then show ?thesis
    by (simp add: click_closeBtn_def closeBtn_onclick_def split: option.split)
next
  case (ClickToast r)
  then show ?thesis
    by (simp add: click_toast_def toast_onclick_def split: option.split)
qed

text \<open>
  While a completion callback for an id is pending or the id is out of the registry,
  an event other than a \<open>show\<close> keeps it so: the callback leaves the queue only by
  running, and it deletes the id.
\<close>

lemma pending_or_gone_step:
  assumes "\<not> is_show e" and "callback_of T = RemovalDone r k"
    and "T \<in> set (timers s) \<or> Map_get (toasts s) k = None"
  shows "T \<in> set (timers (step e s)) \<or> Map_get (toasts (step e s)) k = None"
proof (cases "Map_get (toasts s) k = None")
  case True
  from toasts_step [OF assms(1), of s]
  consider "toasts (step e s) = toasts s"
    | k' where "toasts (step e s) = Map_delete k' (toasts s)"
    by blast
  then have "Map_get (toasts (step e s)) k = None"
    using True by cases (simp_all add: Map_get_delete)
  then show ?thesis by simp
next
  case False
  with assms(3) have T: "T \<in> set (timers s)" by simp
  show ?thesis
  proof (cases e)
    case (Show options k')
    with assms(1) show ?thesis by simp
  next
    case (RemoveToast k')
    with T show ?thesis by (simp add: timers_removeToast_mono)
  next
    case Clear
    with T show ?thesis by (simp add: clear_def timers_fold_removeToast_mono)
  next
    case Tick
    show ?thesis
    proof (cases "next_timer s")
      case None
      with Tick T show ?thesis by (simp add: tick_def)
    next
      case (Some t)
      let ?u = "s\<lparr>timers := remove1 t (timers s), now := max (now s) (due t)\<rparr>"
      show ?thesis
      proof (cases "t = T")
        case True
        with Some Tick assms(2) show ?thesis by (simp add: tick_def Map_get_delete)
      next
        case False
        with T have "T \<in> set (timers ?u)" by simp
        then have "T \<in> set (timers (run_callback (callback_of t) ?u))"
          by (cases "callback_of t") (simp_all add: timers_removeToast_mono)
        with Some Tick show ?thesis by (simp add: tick_def)
      qed
    qed
  next
    case (ClickClose r')
    with T show ?thesis
      by (simp add: click_closeBtn_def closeBtn_onclick_def timers_removeToast_mono
          split: option.split)
  next
    case (ClickToast r')
    with T show ?thesis
      by (simp add: click_toast_def toast_onclick_def split: option.split)
  qed
qed

lemma size_step:
  assumes "\<not> is_show e" and "wf s"
    and "Map_size (toasts s) \<le> m + 1"
    and "Map_get (toasts s) k = None \<longrightarrow> Map_size (toasts s) \<le> m"
  shows "Map_size (toasts (step e s)) \<le> m + 1
       \<and> (Map_get (toasts (step e s)) k = None \<longrightarrow> Map_size (toasts (step e s)) \<le> m)"
proof -
  from toasts_step [OF assms(1), of s]
  consider "toasts (step e s) = toasts s"
    | k' where "toasts (step e s) = Map_delete k' (toasts s)"
    by blast
  then show ?thesis
  proof cases
    case 1
    with assms(3,4) show ?thesis by simp
  next
    case 2
    have le: "length (Map_delete k' (toasts s)) \<le> length (toasts s)"
      by (rule length_Map_delete_le)
    show ?thesis
    proof (cases "Map_get (toasts s) k")
      case None
      with assms(4) le 2 show ?thesis by (simp add: Map_size_def)
    next
      case (Some v)
      show ?thesis
      proof (cases "k' = k")
        case True
        from assms(2) have "distinct (map fst (toasts s))" by (simp add: wf_def)
        then have "length (Map_delete k (toasts s)) + 1 = length (toasts s)"
          using Some by (rule length_Map_delete)
        with assms(3) 2 True show ?thesis by (simp add: Map_size_def)
      next
        case False
        with Some 2 assms(3) le show ?thesis by (simp add: Map_size_def Map_get_delete)
      qed
    qed
  qed
qed

lemma no_show_run:
  assumes "\<forall>e \<in> set es. \<not> is_show e" and "wf s" and "callback_of T = RemovalDone r k"
    and "T \<in> set (timers s) \<or> Map_get (toasts s) k = None"
    and "Map_size (toasts s) \<le> m + 1"
    and "Map_get (toasts s) k = None \<longrightarrow> Map_size (toasts s) \<le> m"
  shows "Map_size (toasts (run es s)) \<le> m + 1
       \<and> (T \<notin> set (timers (run es s)) \<longrightarrow>
            Map_get (toasts (run es s)) k = None \<and> Map_size (toasts (run es s)) \<le> m)"
  using assms
proof (induction es arbitrary: s)
  case Nil
  then show ?case by (auto simp: run_def)
next
  case (Cons e es)
  from Cons.prems(1) have e: "\<not> is_show e" and es: "\<forall>e \<in> set es. \<not> is_show e"
    by simp_all
  have w: "wf (step e s)" using Cons.prems(2) by (rule wf_step)
  have p: "T \<in> set (timers (step e s)) \<or> Map_get (toasts (step e s)) k = None"
    using e Cons.prems(3,4) by (rule pending_or_gone_step)
  have z: "Map_size (toasts (step e s)) \<le> m + 1
       \<and> (Map_get (toasts (step e s)) k = None \<longrightarrow> Map_size (toasts (step e s)) \<le> m)"
    using e Cons.prems(2,5,6) by (rule size_step)
  from Cons.IH [OF es w Cons.prems(3) p] z show ?case
    by (simp add: run_def)
qed

subsection \<open>Capacity\<close>

text \<open>
  C2, as stated, fails. With capacity 2, three calls of \<open>show\<close> leave three entries
  in the registry: the eviction only starts the exit transition of the first one.
\<close>

theorem registry_exceeds_capacity_counterexample:
  "maxToasts (config (run three_shows (manager_of_capacity 2))) = Some (Num 2)
   \<and> Map_size (toasts (run three_shows (manager_of_capacity 2))) = 3"
  by code_simp

text \<open>
  C2, amended. A \<open>show\<close> with a fresh id on a manager with a container deletes
  nothing itself: the registry has one entry more after the call. When the test
  of the capacity check fails, as it does below capacity, the call evicts nothing:
  the stored elements are the old ones followed by the new one, and the only timer
  it can add is the auto-dismiss timer of the new toast.
  When the registry holds exactly \<open>maxToasts\<close> entries, the capacity check calls
  \<open>removeToast\<close> for the first, oldest entry before the new one is inserted: the
  element of that entry is marked as removing and its completion callback is
  pending, due 300 ms later. If that callback is what happens next, the entry is
  gone and the registry holds \<open>maxToasts\<close> entries again. Through every run of events
  that contains no further call of \<open>show\<close>, the registry holds at most
  \<open>maxToasts + 1\<close> entries, and once that callback is no longer pending the entry is
  gone and the registry holds at most \<open>maxToasts\<close> entries. Runs with a further
  \<open>show\<close> before the callback has run are not covered.
\<close>

theorem show_at_capacity:
  assumes "wf s" and "container s \<noteq> None" and "Map_get (toasts s) tid = None"
  shows "Map_size (toasts (fst (show_toast options tid s))) = Map_size (toasts s) + 1
       \<and> (\<not> at_capacity s \<longrightarrow>
            elems (fst (show_toast options tid s)) = elems s @ [new_toast options tid]
            \<and> timers (fst (show_toast options tid s)) =
                timers s @
                  (if greater_than_zero (resolved_duration options s)
                   then [\<lparr>due = now s + timer_delay (resolved_duration options s),
                          callback_of = AutoDismiss tid\<rparr>]
                   else []))
       \<and> (\<forall>k firstToast rest.
             toasts s = (k, firstToast) # rest
             \<and> maxToasts (config s) = Some (Num (of_int (Map_size (toasts s)))) \<longrightarrow>
               limitToasts s = removeToast k s
               \<and> removing (fst (show_toast options tid s)) firstToast
               \<and> \<lparr>due = now s + 300, callback_of = RemovalDone firstToast k\<rparr>
                    \<in> set (timers (fst (show_toast options tid s)))
               \<and> Map_get (toasts (removal_done firstToast k (fst (show_toast options tid s)))) k = None
               \<and> Map_size (toasts (removal_done firstToast k (fst (show_toast options tid s))))
                    = Map_size (toasts s)
               \<and> (\<forall>es. (\<forall>e \<in> set es. \<not> is_show e) \<longrightarrow>
                     Map_size (toasts (run es (fst (show_toast options tid s))))
                       \<le> Map_size (toasts s) + 1
                     \<and> (\<lparr>due = now s + 300, callback_of = RemovalDone firstToast k\<rparr>
                           \<notin> set (timers (run es (fst (show_toast options tid s)))) \<longrightarrow>
                          Map_get (toasts (run es (fst (show_toast options tid s)))) k = None
                          \<and> Map_size (toasts (run es (fst (show_toast options tid s))))
                               \<le> Map_size (toasts s))))"
proof -
  from assms(2) obtain children where c: "container s = Some children" by auto
  note f = show_toast_fields [OF c, of options tid]
  let ?s' = "fst (show_toast options tid s)"
  have size: "Map_size (toasts ?s') = Map_size (toasts s) + 1"
    using assms(3) by (simp add: f Map_size_def length_Map_set_fresh)
  have below: "\<not> at_capacity s \<longrightarrow>
      elems ?s' = elems s @ [new_toast options tid]
      \<and> timers ?s' = timers s @
          (if greater_than_zero (resolved_duration options s)
           then [\<lparr>due = now s + timer_delay (resolved_duration options s),
                  callback_of = AutoDismiss tid\<rparr>]
           else [])"
    by (simp add: f limitToasts_below)
  have full: "limitToasts s = removeToast k s
       \<and> removing ?s' firstToast
       \<and> \<lparr>due = now s + 300, callback_of = RemovalDone firstToast k\<rparr> \<in> set (timers ?s')
       \<and> Map_get (toasts (removal_done firstToast k ?s')) k = None
       \<and> Map_size (toasts (removal_done firstToast k ?s')) = Map_size (toasts s)
       \<and> (\<forall>es. (\<forall>e \<in> set es. \<not> is_show e) \<longrightarrow>
             Map_size (toasts (run es ?s')) \<le> Map_size (toasts s) + 1
             \<and> (\<lparr>due = now s + 300, callback_of = RemovalDone firstToast k\<rparr>
                   \<notin> set (timers (run es ?s')) \<longrightarrow>
                  Map_get (toasts (run es ?s')) k = None
                  \<and> Map_size (toasts (run es ?s')) \<le> Map_size (toasts s)))"
    if t: "toasts s = (k, firstToast) # rest"
      and m: "maxToasts (config s) = Some (Num (of_int (Map_size (toasts s))))"
    for k firstToast rest
  proof -
    let ?T = "\<lparr>due = now s + 300, callback_of = RemovalDone firstToast k\<rparr>"
    have g: "Map_get (toasts s) k = Some firstToast" using t by simp
    with assms(1) have r: "firstToast < length (elems s)" "toastId (elems s ! firstToast) = k"
      by (simp_all add: wf_registry)
    have l: "limitToasts s = removeToast k s"
      using t m r by (simp add: limitToasts_def)
    have "removing (removeToast k s) firstToast"
      using g r(1) by (rule removing_removeToast)
    then have rm: "removing ?s' firstToast"
      using r(1) by (simp add: removing_def f l nth_append)
    have tm: "?T \<in> set (timers ?s')"
      using g by (simp add: f l timers_removeToast)
    from g assms(3) have ne: "k \<noteq> tid" by auto
    have w': "wf ?s'" using assms(1) by (rule wf_show_toast)
    then have d: "distinct (map fst (toasts ?s'))" by (simp add: wf_def)
    have g': "Map_get (toasts ?s') k = Some firstToast"
      using g ne by (simp add: f Map_get_set)
    with d have "length (Map_delete k (toasts ?s')) + 1 = length (toasts ?s')"
      by (rule length_Map_delete)
    with size have direct: "Map_size (toasts (removal_done firstToast k ?s')) = Map_size (toasts s)"
      by (simp add: Map_size_def)
    have runs: "Map_size (toasts (run es ?s')) \<le> Map_size (toasts s) + 1
        \<and> (?T \<notin> set (timers (run es ?s')) \<longrightarrow>
             Map_get (toasts (run es ?s')) k = None
             \<and> Map_size (toasts (run es ?s')) \<le> Map_size (toasts s))"
      if "\<forall>e \<in> set es. \<not> is_show e" for es
    proof (rule no_show_run [OF that w'])
      show "callback_of ?T = RemovalDone firstToast k" by simp
      show "?T \<in> set (timers ?s') \<or> Map_get (toasts ?s') k = None" using tm by simp
      show "Map_size (toasts ?s') \<le> Map_size (toasts s) + 1" using size by simp
      show "Map_get (toasts ?s') k = None \<longrightarrow> Map_size (toasts ?s') \<le> Map_size (toasts s)"
        using g' by simp
    qed
    from l rm tm direct runs show ?thesis by (simp add: Map_get_delete)
  qed
  from full have "\<forall>k firstToast rest.
      toasts s = (k, firstToast) # rest
      \<and> maxToasts (config s) = Some (Num (of_int (Map_size (toasts s)))) \<longrightarrow>
        limitToasts s = removeToast k s
        \<and> removing ?s' firstToast
        \<and> \<lparr>due = now s + 300, callback_of = RemovalDone firstToast k\<rparr> \<in> set (timers ?s')
        \<and> Map_get (toasts (removal_done firstToast k ?s')) k = None
        \<and> Map_size (toasts (removal_done firstToast k ?s')) = Map_size (toasts s)
        \<and> (\<forall>es. (\<forall>e \<in> set es. \<not> is_show e) \<longrightarrow>
              Map_size (toasts (run es ?s')) \<le> Map_size (toasts s) + 1
              \<and> (\<lparr>due = now s + 300, callback_of = RemovalDone firstToast k\<rparr>
                    \<notin> set (timers (run es ?s')) \<longrightarrow>
                   Map_get (toasts (run es ?s')) k = None
                   \<and> Map_size (toasts (run es ?s')) \<le> Map_size (toasts s)))"
    by blast
  with size below show ?thesis by blast
qed

theorem show_at_capacity_witness:
  "wf full_two \<and> container full_two \<noteq> None \<and> Map_get (toasts full_two) ''kc'' = None
   \<and> toasts full_two = [(''ka'', 0), (''kb'', 1)]
   \<and> maxToasts (config full_two) = Some (Num (of_int (Map_size (toasts full_two))))
   \<and> map is_show [Tick, RemoveToast ''kb'', Tick, Tick] = [False, False, False, False]
   \<and> Map_size (toasts (fst (show_toast (just ''c'') ''kc'' full_two))) = 3
   \<and> removing (fst (show_toast (just ''c'') ''kc'' full_two)) 0
   \<and> Map_size (toasts (removal_done 0 ''ka'' (fst (show_toast (just ''c'') ''kc'' full_two)))) = 2
   \<and> \<lparr>due = 300, callback_of = RemovalDone 0 ''ka''\<rparr>
        \<notin> set (timers (run [Tick, RemoveToast ''kb'', Tick, Tick]
              (fst (show_toast (just ''c'') ''kc'' full_two))))
   \<and> Map_get (toasts (run [Tick, RemoveToast ''kb'', Tick, Tick]
        (fst (show_toast (just ''c'') ''kc'' full_two)))) ''ka'' = None
   \<and> Map_size (toasts (run [Tick, RemoveToast ''kb'', Tick, Tick]
        (fst (show_toast (just ''c'') ''kc'' full_two)))) \<le> 2"
proof -
  have c: "container full_two \<noteq> None" by code_simp
  have g: "Map_get (toasts full_two) ''kc'' = None" by code_simp
  have t: "toasts full_two = [(''ka'', 0), (''kb'', 1)]" by code_simp
  have m: "maxToasts (config full_two) = Some (Num (of_int (Map_size (toasts full_two))))"
    by code_simp
  have z: "Map_size (toasts full_two) = 2" by code_simp
  have n: "now full_two = 0" by code_simp
  have e: "\<forall>e \<in> set [Tick, RemoveToast ''kb'', Tick, Tick]. \<not> is_show e" by simp
  have p: "\<lparr>due = 300, callback_of = RemovalDone 0 ''ka''\<rparr>
        \<notin> set (timers (run [Tick, RemoveToast ''kb'', Tick, Tick]
              (fst (show_toast (just ''c'') ''kc'' full_two))))"
    by code_simp
  note cap = show_at_capacity [OF wf_full_two c g, of "just ''c''"]
  from cap have "Map_size (toasts (fst (show_toast (just ''c'') ''kc'' full_two)))
      = Map_size (toasts full_two) + 1"
    by blast
  moreover from cap t m have
    "removing (fst (show_toast (just ''c'') ''kc'' full_two)) 0
     \<and> Map_size (toasts (removal_done 0 ''ka'' (fst (show_toast (just ''c'') ''kc'' full_two))))
         = Map_size (toasts full_two)
     \<and> (\<forall>es. (\<forall>e \<in> set es. \<not> is_show e) \<longrightarrow>
           (\<lparr>due = now full_two + 300, callback_of = RemovalDone 0 ''ka''\<rparr>
              \<notin> set (timers (run es (fst (show_toast (just ''c'') ''kc'' full_two)))) \<longrightarrow>
            Map_get (toasts (run es (fst (show_toast (just ''c'') ''kc'' full_two)))) ''ka'' = None
            \<and> Map_size (toasts (run es (fst (show_toast (just ''c'') ''kc'' full_two))))
                 \<le> Map_size (toasts full_two)))"
    by blast
  ultimately show ?thesis
    using wf_full_two c g t m z n e p by simp
qed

text \<open>
  C4. With capacity 2 and the calls of \<open>show\<close> for a, b and c, the toast a is put
  into its exit transition and b and c are not. A fourth call, for d, made before
  that transition completes, finds a still first in the registry and calls
  \<open>removeToast\<close> for a again: b, the oldest toast that is not being removed, is not
  evicted, and after both completion callbacks have run the registry holds b, c and
  d, none of them being removed.
\<close>

theorem eviction_repeats_first:
  "map fst (toasts (run three_shows (manager_of_capacity 2))) = [''ka'', ''kb'', ''kc'']
   \<and> removing (run three_shows (manager_of_capacity 2)) 0
   \<and> \<not> removing (run three_shows (manager_of_capacity 2)) 1
   \<and> \<not> removing (run three_shows (manager_of_capacity 2)) 2
   \<and> toasts (run (three_shows @ [Show (just ''d'') ''kd'']) (manager_of_capacity 2))
       = [(''ka'', 0), (''kb'', 1), (''kc'', 2), (''kd'', 3)]
   \<and> removing (run (three_shows @ [Show (just ''d'') ''kd'']) (manager_of_capacity 2)) 0
   \<and> \<not> removing (run (three_shows @ [Show (just ''d'') ''kd'']) (manager_of_capacity 2)) 1
   \<and> map callback_of (timers (run (three_shows @ [Show (just ''d'') ''kd'']) (manager_of_capacity 2)))
       = [AutoDismiss ''ka'', AutoDismiss ''kb'', RemovalDone 0 ''ka'', AutoDismiss ''kc'',
          RemovalDone 0 ''ka'', AutoDismiss ''kd'']
   \<and> toasts (run (three_shows @ [Show (just ''d'') ''kd'', Tick, Tick]) (manager_of_capacity 2))
       = [(''kb'', 1), (''kc'', 2), (''kd'', 3)]
   \<and> \<not> removing (run (three_shows @ [Show (just ''d'') ''kd'', Tick, Tick]) (manager_of_capacity 2)) 1"
  by code_simp

subsection \<open>The \<open>onClose\<close> callback\<close>

text \<open>\<open>show\<close> does not read the \<open>onClose\<close> option.\<close>

lemma onClose_ignored: "show_toast (options\<lparr>onClose := c\<rparr>) tid s = show_toast options tid s"
  by (simp add: show_toast_def new_toast_def Let_def split: option.split)

text \<open>
  C1. A toast shown with an \<open>onClose\<close> callback is removed by an explicit
  \<open>removeToast\<close>, by its auto-dismiss timer, by \<open>clear\<close>, or by the capacity check of
  a later \<open>show\<close>; on each path the registry loses the toast and no caller function
  has been invoked: \<open>onClose\<close> is called zero times.
\<close>

theorem onClose_never_invoked:
  "toasts (run [Show with_onClose ''kx'', RemoveToast ''kx'', Tick] (new_manager True None)) = []
   \<and> container (run [Show with_onClose ''kx'', RemoveToast ''kx'', Tick] (new_manager True None)) = Some []
   \<and> calls (run [Show with_onClose ''kx'', RemoveToast ''kx'', Tick] (new_manager True None)) = []
   \<and> toasts (run [Show with_onClose ''kx'', Tick, Tick] (new_manager True None)) = []
   \<and> calls (run [Show with_onClose ''kx'', Tick, Tick] (new_manager True None)) = []
   \<and> toasts (run [Show with_onClose ''kx'', Clear, Tick] (new_manager True None)) = []
   \<and> calls (run [Show with_onClose ''kx'', Clear, Tick] (new_manager True None)) = []
   \<and> toasts (run [Show with_onClose ''kx'', Show (just ''y'') ''ky'', Tick] (manager_of_capacity 1))
       = [(''ky'', 1)]
   \<and> calls (run [Show with_onClose ''kx'', Show (just ''y'') ''ky'', Tick] (manager_of_capacity 1)) = []"
  by code_simp

end
